theory Spec2Isabelle
  imports Main "HOL-Library.Word"
begin

unbundle bit_operations_syntax

section \<open>The waiters for router advertisements (\<open>net/icmpv6/icmpv6_rnotify.c\<close>)\<close>

subsection \<open>Constants of the headers\<close>

text \<open>
  Modelled from the spec: the status codes and the size of an interface name come from
  headers that are not part of the source unit (errno.h, net/if.h). The spec calls them the
  success code, the timeout sentinel and the not-found status; the numbers are the ones of
  the NuttX headers. Only \<open>OK = 0\<close> and the error numbers being positive is ever used.
\<close>

definition OK :: int where
  "OK = 0"

definition ETIMEDOUT :: int where
  "ETIMEDOUT = 110"

definition ENOENT :: int where
  "ENOENT = 2"

definition IFNAMSIZ :: nat where
  "IFNAMSIZ = 16"

subsection \<open>Data model\<close>

text \<open>
  \<open>net_ipv6addr_t\<close> is an array of eight 16-bit words. It is a list here; the theorems
  that read a word of it say that the list has eight elements.
\<close>

type_synonym net_ipv6addr_t = "16 word list"

text \<open>The fields of \<open>struct net_driver_s\<close> that this file reads or writes.\<close>

record net_driver_s =
  d_ifname :: "8 word list"
  d_ipv6addr :: net_ipv6addr_t
  d_ipv6draddr :: net_ipv6addr_t
  d_ipv6netmask :: net_ipv6addr_t

text \<open>
  Modelled from the spec: the bounded-wait signal primitive (init, signal, destroy) is a
  kernel collaborator outside the source unit. A semaphore is its count, its priority
  protocol and whether it has been destroyed.
\<close>

datatype sem_protocol = SEM_PRIO_NONE | SEM_PRIO_INHERIT

record sem_t =
  semcount :: int
  sem_proto :: sem_protocol
  sem_destroyed :: bool

definition nxsem_init :: "sem_t \<Rightarrow> int \<Rightarrow> sem_t" where
  "nxsem_init sem val = sem\<lparr>semcount := val, sem_destroyed := False\<rparr>"

definition nxsem_setprotocol :: "sem_t \<Rightarrow> sem_protocol \<Rightarrow> sem_t" where
  "nxsem_setprotocol sem proto = sem\<lparr>sem_proto := proto\<rparr>"

definition nxsem_post :: "sem_t \<Rightarrow> sem_t" where
  "nxsem_post sem = sem\<lparr>semcount := semcount sem + 1\<rparr>"

definition nxsem_destroy :: "sem_t \<Rightarrow> sem_t" where
  "nxsem_destroy sem = sem\<lparr>sem_destroyed := True\<rparr>"

text \<open>
  \<open>struct icmpv6_rnotify_s\<close>. A pointer to such a structure is an address (a natural
  number); a pointer that may be \<open>NULL\<close> is an optional address.
\<close>

type_synonym addr = nat

record icmpv6_rnotify_s =
  rn_flink :: "addr option"
  rn_ifname :: "8 word list"
  rn_sem :: sem_t
  rn_result :: int

text \<open>
  The state of the file: the head \<open>g_icmpv6_rwaiters\<close> of the list of waiters and the
  memory that holds the callers' notify structures.
\<close>

record rwaiters =
  g_icmpv6_rwaiters :: "addr option"
  mem :: "addr \<Rightarrow> icmpv6_rnotify_s"

subsection \<open>Library routines\<close>

text \<open>
  \<open>memcpy\<close> of \<open>n\<close> array elements and \<open>strncmp\<close> of the C library, on arrays as lists.
  \<open>strncmp\<close> compares at most \<open>n\<close> characters and stops after a NUL; the end of a list
  reads as NUL (the arrays compared here are \<open>IFNAMSIZ\<close> long, so it is never reached).
  \<open>memcpy\<close> is exact when \<open>src\<close> has at least \<open>n\<close> elements, which the theorems that
  depend on the copied name assume.
\<close>

definition memcpy :: "'a list \<Rightarrow> 'a list \<Rightarrow> nat \<Rightarrow> 'a list" where
  "memcpy dest src n = take n src @ drop n dest"

fun strncmp :: "8 word list \<Rightarrow> 8 word list \<Rightarrow> nat \<Rightarrow> int" where
  "strncmp s1 s2 0 = 0"
| "strncmp s1 s2 (Suc n) =
     (let c1 = (case s1 of [] \<Rightarrow> 0 | c # _ \<Rightarrow> c);
          c2 = (case s2 of [] \<Rightarrow> 0 | c # _ \<Rightarrow> c)
      in if c1 \<noteq> c2 then uint c1 - uint c2
         else if c1 = 0 then 0
         else strncmp (tl s1) (tl s2) n)"

text \<open>
  Modelled from the spec: \<open>net_ipv6_pref2mask\<close>, the address-mask-from-prefix-length
  utility, is not part of the source unit. The functions below take it as the parameter
  \<open>pref2mask\<close> (prefix length, mask buffer before the call, giving the buffer after the
  call). This instance sets the leading \<open>preflen\<close> bits of the 128-bit mask and is used
  for the concrete examples only.
\<close>

definition net_ipv6_pref2mask :: "nat \<Rightarrow> net_ipv6addr_t \<Rightarrow> net_ipv6addr_t" where
  "net_ipv6_pref2mask preflen buf =
     map (\<lambda>i. if 16 * (i + 1) \<le> preflen then 0xffff
              else if 16 * i < preflen then push_bit (16 - (preflen - 16 * i)) 0xffff
              else 0) [0..<8]"

subsection \<open>\<open>icmpv6_setaddresses\<close>\<close>

text \<open>
  The loop \<open>for (i = 0; i < 7; i++)\<close> that copies the prefix into the address under the
  mask; \<open>i\<close> is the loop counter on entry.
\<close>

function setaddresses_loop ::
  "nat \<Rightarrow> net_ipv6addr_t \<Rightarrow> net_ipv6addr_t \<Rightarrow> net_ipv6addr_t \<Rightarrow> net_ipv6addr_t" where
  "setaddresses_loop i ipv6addr netmask prefix =
     (if i < 7
      then setaddresses_loop (i + 1)
             (ipv6addr[i := (ipv6addr ! i AND NOT (netmask ! i)) OR (prefix ! i AND netmask ! i)])
             netmask prefix
      else ipv6addr)"
  by pat_completeness auto
termination
  by (relation "measure (\<lambda>(i, _). 7 - i)") auto

definition icmpv6_setaddresses ::
  "(nat \<Rightarrow> net_ipv6addr_t \<Rightarrow> net_ipv6addr_t) \<Rightarrow> net_driver_s \<Rightarrow> net_ipv6addr_t \<Rightarrow>
   net_ipv6addr_t \<Rightarrow> 32 word \<Rightarrow> net_driver_s" where
  "icmpv6_setaddresses pref2mask dev draddr prefix preflen =
     (let preflen1 = (if preflen > 128 then 128 else preflen);
          dev1 = dev\<lparr>d_ipv6netmask := pref2mask (unat preflen1) (d_ipv6netmask dev)\<rparr>;
          dev2 = dev1\<lparr>d_ipv6addr :=
                   setaddresses_loop 0 (d_ipv6addr dev1) (d_ipv6netmask dev1) prefix\<rparr>
      in dev2\<lparr>d_ipv6draddr := draddr\<rparr>)"

subsection \<open>\<open>icmpv6_rwait_setup\<close>\<close>

text \<open>
  The wait structure is initialised field by field and then put in front of the list.
  The critical section and the network lock have no effect in a sequential model.
\<close>

definition icmpv6_rwait_setup :: "net_driver_s \<Rightarrow> addr \<Rightarrow> rwaiters \<Rightarrow> rwaiters" where
  "icmpv6_rwait_setup dev notify s =
     (let n0 = mem s notify;
          n1 = n0\<lparr>rn_ifname := memcpy (rn_ifname n0) (d_ifname dev) IFNAMSIZ\<rparr>;
          n2 = n1\<lparr>rn_result := - ETIMEDOUT\<rparr>;
          n3 = n2\<lparr>rn_sem := nxsem_init (rn_sem n2) 0\<rparr>;
          n4 = n3\<lparr>rn_sem := nxsem_setprotocol (rn_sem n3) SEM_PRIO_NONE\<rparr>;
          n5 = n4\<lparr>rn_flink := g_icmpv6_rwaiters s\<rparr>
      in s\<lparr>mem := (mem s)(notify := n5), g_icmpv6_rwaiters := Some notify\<rparr>)"

subsection \<open>\<open>icmpv6_rwait_cancel\<close>\<close>

text \<open>
  The search loop \<open>for (prev = NULL, curr = g_icmpv6_rwaiters; curr && curr != notify;
  prev = curr, curr = curr->rn_flink)\<close>, which gives \<open>prev\<close> and \<open>curr\<close> (here \<open>cur\<close>) at
  its exit.
  On a list that runs into a cycle without meeting \<open>notify\<close> the loop does not end: the
  value is \<open>None\<close>.
\<close>

partial_function (option) rwait_cancel_loop ::
  "(addr \<Rightarrow> icmpv6_rnotify_s) \<Rightarrow> addr \<Rightarrow> addr option \<Rightarrow> addr option \<Rightarrow>
   (addr option \<times> addr option) option" where
  "rwait_cancel_loop m notify prev cur =
     (case cur of
        None \<Rightarrow> Some (prev, cur)
      | Some c \<Rightarrow>
          if c \<noteq> notify then rwait_cancel_loop m notify cur (rn_flink (m c))
          else Some (prev, cur))"

text \<open>
  Modelled from the spec: the macro \<open>DEBUGASSERT\<close> is defined outside the source unit.
  Following the spec, where an entry that is not in the list is reported as not found, it
  has no effect here, as in a build without debug assertions; the code after it handles
  the missing entry. The result is the returned status and the new state.
\<close>

definition icmpv6_rwait_cancel :: "addr \<Rightarrow> rwaiters \<Rightarrow> (int \<times> rwaiters) option" where
  "icmpv6_rwait_cancel notify s =
     (case rwait_cancel_loop (mem s) notify None (g_icmpv6_rwaiters s) of
        None \<Rightarrow> None
      | Some (prev, cur) \<Rightarrow>
          let (ret, s1) =
                (if cur \<noteq> None
                 then (OK,
                       case prev of
                         Some p \<Rightarrow>
                           s\<lparr>mem := (mem s)(p := (mem s p)\<lparr>rn_flink := rn_flink (mem s notify)\<rparr>)\<rparr>
                       | None \<Rightarrow> s\<lparr>g_icmpv6_rwaiters := rn_flink (mem s notify)\<rparr>)
                 else (- ENOENT, s));
              s2 = s1\<lparr>mem := (mem s1)(notify :=
                     (mem s1 notify)\<lparr>rn_sem := nxsem_destroy (rn_sem (mem s1 notify))\<rparr>)\<rparr>
          in Some (ret, s2))"

subsection \<open>\<open>icmpv6_rwait\<close>\<close>

text \<open>
  \<open>net_timedwait\<close> is a kernel primitive outside the source unit: it is the parameter
  \<open>timedwait\<close>, which gives the status that the wait returns and the semaphore it leaves.
  The state \<open>s\<close> is the memory at the moment the wait returns, after whatever the other
  contexts did while the caller was blocked.
\<close>

definition icmpv6_rwait ::
  "(sem_t \<Rightarrow> nat \<Rightarrow> int \<times> sem_t) \<Rightarrow> addr \<Rightarrow> nat \<Rightarrow> rwaiters \<Rightarrow> (int \<times> rwaiters) option" where
  "icmpv6_rwait timedwait notify timeout s =
     (let (ret0, sem1) = timedwait (rn_sem (mem s notify)) timeout;
          s1 = s\<lparr>mem := (mem s)(notify := (mem s notify)\<lparr>rn_sem := sem1\<rparr>)\<rparr>;
          ret = (if ret0 \<ge> 0 then rn_result (mem s1 notify) else ret0)
      in case icmpv6_rwait_cancel notify s1 of
           None \<Rightarrow> None
         | Some (_, s2) \<Rightarrow> Some (ret, s2))"

subsection \<open>\<open>icmpv6_rnotify\<close>\<close>

text \<open>
  The loop over the waiters, with \<open>cur\<close> (the source's \<open>curr\<close>) the entry it is at.
  The result is the device structure and the state when the loop is left; it is \<open>None\<close>
  when the loop does not end (a list that runs into a cycle with no entry to take).
\<close>

partial_function (option) rnotify_loop ::
  "(nat \<Rightarrow> net_ipv6addr_t \<Rightarrow> net_ipv6addr_t) \<Rightarrow> net_driver_s \<Rightarrow> net_ipv6addr_t \<Rightarrow>
   net_ipv6addr_t \<Rightarrow> 32 word \<Rightarrow> addr option \<Rightarrow> rwaiters \<Rightarrow> (net_driver_s \<times> rwaiters) option" where
  "rnotify_loop pref2mask dev draddr prefix preflen cur s =
     (case cur of
        None \<Rightarrow> Some (dev, s)
      | Some c \<Rightarrow>
          if rn_result (mem s c) \<noteq> OK \<and>
             strncmp (rn_ifname (mem s c)) (d_ifname dev) IFNAMSIZ = 0
          then
            let dev1 = icmpv6_setaddresses pref2mask dev draddr prefix preflen;
                s1 = s\<lparr>mem := (mem s)(c := (mem s c)\<lparr>rn_result := OK\<rparr>)\<rparr>;
                s2 = s1\<lparr>mem := (mem s1)(c := (mem s1 c)\<lparr>rn_sem := nxsem_post (rn_sem (mem s1 c))\<rparr>)\<rparr>
            in Some (dev1, s2)
          else rnotify_loop pref2mask dev draddr prefix preflen (rn_flink (mem s c)) s)"

definition icmpv6_rnotify ::
  "(nat \<Rightarrow> net_ipv6addr_t \<Rightarrow> net_ipv6addr_t) \<Rightarrow> net_driver_s \<Rightarrow> net_ipv6addr_t \<Rightarrow>
   net_ipv6addr_t \<Rightarrow> 32 word \<Rightarrow> rwaiters \<Rightarrow> (net_driver_s \<times> rwaiters) option" where
  "icmpv6_rnotify pref2mask dev draddr prefix preflen s =
     rnotify_loop pref2mask dev draddr prefix preflen (g_icmpv6_rwaiters s) s"

subsection \<open>The list of waiters as a sequence of addresses\<close>

text \<open>
  \<open>waiters m p as\<close>: following \<open>rn_flink\<close> from the pointer \<open>p\<close> visits exactly the
  addresses \<open>as\<close>, in this order, and then reaches \<open>NULL\<close>.
\<close>

fun waiters :: "(addr \<Rightarrow> icmpv6_rnotify_s) \<Rightarrow> addr option \<Rightarrow> addr list \<Rightarrow> bool" where
  "waiters m p [] = (p = None)"
| "waiters m p (a # as) = (p = Some a \<and> waiters m (rn_flink (m a)) as)"

definition registry :: "rwaiters \<Rightarrow> addr list \<Rightarrow> bool" where
  "registry s as = waiters (mem s) (g_icmpv6_rwaiters s) as"

text \<open>The test that \<open>icmpv6_rnotify\<close> makes on an entry, and what it does to the entry it takes.\<close>

definition rnotify_match :: "net_driver_s \<Rightarrow> icmpv6_rnotify_s \<Rightarrow> bool" where
  "rnotify_match dev n =
     (rn_result n \<noteq> OK \<and> strncmp (rn_ifname n) (d_ifname dev) IFNAMSIZ = 0)"

definition rnotify_wake :: "icmpv6_rnotify_s \<Rightarrow> icmpv6_rnotify_s" where
  "rnotify_wake n = n\<lparr>rn_result := OK, rn_sem := nxsem_post (rn_sem n)\<rparr>"

text \<open>
  The value of \<open>prev\<close> when the search loop of \<open>icmpv6_rwait_cancel\<close> is left, on a list
  that visits \<open>as\<close>: the entry before \<open>n\<close>, or the last one when \<open>n\<close> is not there.
\<close>

fun pred_in :: "addr \<Rightarrow> addr option \<Rightarrow> addr list \<Rightarrow> addr option" where
  "pred_in n prev [] = prev"
| "pred_in n prev (a # as) = (if a = n then prev else pred_in n (Some a) as)"

subsection \<open>Sequences of calls\<close>

text \<open>
  The four entry points as calls, and a run of a list of calls from a state. A call of
  \<open>icmpv6_rwait\<close> carries the behaviour of its timed wait; the device structure that a
  delivery returns is dropped, since the list does not depend on it. \<open>result_writes\<close>
  runs the calls and counts those after which the \<open>rn_result\<close> of the entry at \<open>a\<close> has
  another value than before; it gives the count and the last state, and \<open>None\<close> when a
  call does not return.
\<close>

datatype call =
    Setup net_driver_s addr
  | Cancel addr
  | Wait "sem_t \<Rightarrow> nat \<Rightarrow> int \<times> sem_t" addr nat
  | Notify net_driver_s net_ipv6addr_t net_ipv6addr_t "32 word"

fun call_step ::
  "(nat \<Rightarrow> net_ipv6addr_t \<Rightarrow> net_ipv6addr_t) \<Rightarrow> call \<Rightarrow> rwaiters \<Rightarrow> rwaiters option" where
  "call_step pref2mask (Setup dev notify) s = Some (icmpv6_rwait_setup dev notify s)"
| "call_step pref2mask (Cancel notify) s = map_option snd (icmpv6_rwait_cancel notify s)"
| "call_step pref2mask (Wait timedwait notify timeout) s =
     map_option snd (icmpv6_rwait timedwait notify timeout s)"
| "call_step pref2mask (Notify dev draddr prefix preflen) s =
     map_option snd (icmpv6_rnotify pref2mask dev draddr prefix preflen s)"

fun result_writes ::
  "(nat \<Rightarrow> net_ipv6addr_t \<Rightarrow> net_ipv6addr_t) \<Rightarrow> addr \<Rightarrow> call list \<Rightarrow> rwaiters \<Rightarrow>
   (nat \<times> rwaiters) option" where
  "result_writes pref2mask a [] s = Some (0, s)"
| "result_writes pref2mask a (c # cs) s =
     (case call_step pref2mask c s of
        None \<Rightarrow> None
      | Some s1 \<Rightarrow>
          (case result_writes pref2mask a cs s1 of
             None \<Rightarrow> None
           | Some (n, s2) \<Rightarrow>
               Some (if rn_result (mem s1 a) \<noteq> rn_result (mem s a) then n + 1 else n, s2)))"

subsection \<open>Values for the examples\<close>

text \<open>
  A freshly allocated notify structure with stale contents, the state in which nobody
  waits, and two devices that differ in their name (\<open>eth0\<close> and \<open>eth1\<close>).
\<close>

definition blank_notify :: icmpv6_rnotify_s where
  "blank_notify =
     \<lparr>rn_flink = None, rn_ifname = replicate 16 0,
      rn_sem = \<lparr>semcount = 0, sem_proto = SEM_PRIO_INHERIT, sem_destroyed = True\<rparr>,
      rn_result = 0\<rparr>"

definition no_waiters :: rwaiters where
  "no_waiters = \<lparr>g_icmpv6_rwaiters = None, mem = (\<lambda>_. blank_notify)\<rparr>"

definition eth0 :: net_driver_s where
  "eth0 =
     \<lparr>d_ifname = [0x65, 0x74, 0x68, 0x30] @ replicate 12 0,
      d_ipv6addr = [0xfe80, 0, 0, 0, 0x0211, 0x22ff, 0xfe33, 0x4455],
      d_ipv6draddr = replicate 8 0,
      d_ipv6netmask = replicate 8 0\<rparr>"

definition eth1 :: net_driver_s where
  "eth1 = eth0\<lparr>d_ifname := [0x65, 0x74, 0x68, 0x31] @ replicate 12 0\<rparr>"

text \<open>
  Two entries registered for \<open>eth0\<close> at the addresses 1 and then 2, a third one for
  \<open>eth1\<close> at address 3, and two behaviours of the timed wait: woken by a post, and
  timed out.
\<close>

definition two_waiters :: rwaiters where
  "two_waiters = icmpv6_rwait_setup eth0 2 (icmpv6_rwait_setup eth0 1 no_waiters)"

definition three_waiters :: rwaiters where
  "three_waiters = icmpv6_rwait_setup eth1 3 two_waiters"

definition wait_signalled :: "sem_t \<Rightarrow> nat \<Rightarrow> int \<times> sem_t" where
  "wait_signalled sem timeout = (OK, sem\<lparr>semcount := semcount sem - 1\<rparr>)"

definition wait_expired :: "sem_t \<Rightarrow> nat \<Rightarrow> int \<times> sem_t" where
  "wait_expired sem timeout = (- ETIMEDOUT, sem)"

section \<open>Properties\<close>

subsection \<open>The address merge\<close>

declare setaddresses_loop.simps [simp del]

lemma length_setaddresses_loop [simp]:
  "length (setaddresses_loop i a m p) = length a"
  by (induction i a m p rule: setaddresses_loop.induct)
     (subst setaddresses_loop.simps, simp)

lemma nth_setaddresses_loop:
  "setaddresses_loop i a m p ! j =
     (if i \<le> j \<and> j < 7 \<and> j < length a
      then (a ! j AND NOT (m ! j)) OR (p ! j AND m ! j) else a ! j)"
proof (induction i a m p rule: setaddresses_loop.induct)
  case (1 i a m p)
  show ?case
  proof (cases "i < 7")
    case True
    then show ?thesis
      using 1 by (subst setaddresses_loop.simps)
        (cases "j = i", auto simp: nth_list_update le_Suc_eq list_update_beyond)
  next
    case False
    then show ?thesis
      by (subst setaddresses_loop.simps) auto
  qed
qed

subsection \<open>Well-formed lists\<close>

lemma waiters_unique: "waiters m p as \<Longrightarrow> waiters m p bs \<Longrightarrow> as = bs"
proof (induction as arbitrary: p bs)
  case Nil
  then show ?case by (cases bs) auto
next
  case (Cons a as)
  then show ?case by (cases bs) auto
qed

lemma waiters_suffix:
  "waiters m p (as @ a # bs) \<Longrightarrow> waiters m (Some a) (a # bs)"
  by (induction as arbitrary: p) auto

lemma waiters_hd_notin_tl:
  assumes "waiters m (rn_flink (m a)) as"
  shows "a \<notin> set as"
proof
  assume "a \<in> set as"
  then obtain xs ys where as: "as = xs @ a # ys"
    by (auto simp: in_set_conv_decomp)
  with assms have "waiters m (Some a) (a # ys)"
    using waiters_suffix by blast
  then have "waiters m (rn_flink (m a)) ys" by simp
  with assms have "as = ys" by (rule waiters_unique)
  with as show False by simp
qed

lemma waiters_distinct: "waiters m p as \<Longrightarrow> distinct as"
  by (induction as arbitrary: p) (auto dest: waiters_hd_notin_tl)

lemma waiters_flink_cong:
  "(\<And>a. a \<in> set as \<Longrightarrow> rn_flink (m' a) = rn_flink (m a)) \<Longrightarrow>
   waiters m' p as = waiters m p as"
  by (induction as arbitrary: p) auto

lemma waiters_upd_notin:
  "a \<notin> set as \<Longrightarrow> waiters (m(a := x)) p as = waiters m p as"
  by (rule waiters_flink_cong) auto

lemma waiters_upd_same_flink:
  "rn_flink x = rn_flink (m a) \<Longrightarrow> waiters (m(a := x)) p as = waiters m p as"
  by (rule waiters_flink_cong) auto

lemma rnotify_loop_waiters:
  "waiters (mem s) cur as \<Longrightarrow>
   rnotify_loop P dev dr pf pl cur s =
     Some (case find (\<lambda>a. rnotify_match dev (mem s a)) as of
             None \<Rightarrow> (dev, s)
           | Some c \<Rightarrow> (icmpv6_setaddresses P dev dr pf pl,
                        s\<lparr>mem := (mem s)(c := rnotify_wake (mem s c))\<rparr>))"
proof (induction as arbitrary: cur)
  case Nil
  then show ?case by (subst rnotify_loop.simps) simp
next
  case (Cons a as)
  then show ?case
    by (subst rnotify_loop.simps) (simp add: rnotify_match_def rnotify_wake_def Let_def)
qed

lemma rwait_cancel_loop_waiters:
  "waiters m cur as \<Longrightarrow>
   rwait_cancel_loop m notify prev cur =
     Some (pred_in notify prev as, if notify \<in> set as then Some notify else None)"
proof (induction as arbitrary: cur prev)
  case Nil
  then show ?case by (subst rwait_cancel_loop.simps) simp
next
  case (Cons a as)
  then show ?case
    by (subst rwait_cancel_loop.simps) auto
qed

lemma pred_in_split:
  "notify \<notin> set xs \<Longrightarrow>
   pred_in notify prev (xs @ notify # ys) = (if xs = [] then prev else Some (last xs))"
  by (induction xs arbitrary: prev) auto

lemma waiters_unlink:
  "waiters m p (xs @ q # notify # ys) \<Longrightarrow>
   waiters (m(q := (m q)\<lparr>rn_flink := rn_flink (m notify)\<rparr>)) p (xs @ q # ys)"
proof (induction xs arbitrary: p)
  case Nil
  then have "waiters m (rn_flink (m q)) (notify # ys)" by simp
  then have "q \<notin> set (notify # ys)" by (rule waiters_hd_notin_tl)
  then have "q \<notin> set ys" by simp
  then have "waiters (m(q := (m q)\<lparr>rn_flink := rn_flink (m notify)\<rparr>)) (rn_flink (m notify)) ys =
             waiters m (rn_flink (m notify)) ys"
    by (rule waiters_upd_notin)
  with Nil show ?case by (simp add: fun_upd_def)
next
  case (Cons a xs)
  then have "waiters m (rn_flink (m a)) (xs @ q # notify # ys)" by simp
  then have "a \<notin> set (xs @ q # notify # ys)" by (rule waiters_hd_notin_tl)
  with Cons show ?case by simp
qed

lemma cancel_present:
  assumes "registry s (xs @ notify # ys)"
  shows "icmpv6_rwait_cancel notify s =
     Some (OK,
       if xs = []
       then s\<lparr>g_icmpv6_rwaiters := rn_flink (mem s notify),
              mem := (mem s)(notify := (mem s notify)\<lparr>rn_sem := nxsem_destroy (rn_sem (mem s notify))\<rparr>)\<rparr>
       else s\<lparr>mem := (mem s)
                (last xs := (mem s (last xs))\<lparr>rn_flink := rn_flink (mem s notify)\<rparr>,
                 notify := (mem s notify)\<lparr>rn_sem := nxsem_destroy (rn_sem (mem s notify))\<rparr>)\<rparr>)"
proof -
  from assms have d: "distinct (xs @ notify # ys)"
    unfolding registry_def by (rule waiters_distinct)
  then have nx: "notify \<notin> set xs" by auto
  then have ln: "xs \<noteq> [] \<Longrightarrow> last xs \<noteq> notify"
    using last_in_set by metis
  from assms have
    "rwait_cancel_loop (mem s) notify None (g_icmpv6_rwaiters s) =
       Some (if xs = [] then None else Some (last xs), Some notify)"
    unfolding registry_def
    by (simp add: rwait_cancel_loop_waiters pred_in_split [OF nx])
  then show ?thesis
    using ln by (simp add: icmpv6_rwait_cancel_def Let_def)
qed

lemma cancel_absent:
  assumes "registry s as" and "notify \<notin> set as"
  shows "icmpv6_rwait_cancel notify s =
     Some (- ENOENT,
       s\<lparr>mem := (mem s)(notify := (mem s notify)\<lparr>rn_sem := nxsem_destroy (rn_sem (mem s notify))\<rparr>)\<rparr>)"
  using assms unfolding registry_def
  by (simp add: icmpv6_rwait_cancel_def rwait_cancel_loop_waiters Let_def)

lemma registry_after_cancel:
  assumes "registry s (xs @ notify # ys)" and "icmpv6_rwait_cancel notify s = Some (r, s')"
  shows "registry s' (xs @ ys)"
proof (cases "xs = []")
  case True
  with assms(1) have w: "waiters (mem s) (rn_flink (mem s notify)) ys"
    by (simp add: registry_def)
  then have "notify \<notin> set ys" by (rule waiters_hd_notin_tl)
  with w True assms(2) show ?thesis
    unfolding cancel_present [OF assms(1)]
    by (auto simp: registry_def waiters_upd_notin)
next
  case False
  then obtain zs q where xs: "xs = zs @ [q]"
    by (metis rev_exhaust)
  with assms(1) have w: "waiters (mem s) (g_icmpv6_rwaiters s) (zs @ q # notify # ys)"
    by (simp add: registry_def)
  then have "distinct (zs @ q # notify # ys)" by (rule waiters_distinct)
  then have qn: "q \<noteq> notify" by auto
  from w have "waiters ((mem s)(q := (mem s q)\<lparr>rn_flink := rn_flink (mem s notify)\<rparr>))
                 (g_icmpv6_rwaiters s) (zs @ q # ys)"
    by (rule waiters_unlink)
  then have "waiters ((mem s)(q := (mem s q)\<lparr>rn_flink := rn_flink (mem s notify)\<rparr>,
                 notify := (mem s notify)\<lparr>rn_sem := nxsem_destroy (rn_sem (mem s notify))\<rparr>))
                 (g_icmpv6_rwaiters s) (zs @ q # ys)"
    using qn by (subst waiters_upd_same_flink) simp_all
  with assms(2) xs False show ?thesis
    unfolding cancel_present [OF assms(1)]
    by (auto simp: registry_def)
qed

subsection \<open>The loop of \<open>icmpv6_rnotify\<close>\<close>

lemma rnotify_loop_cases:
  assumes "rnotify_loop P dev dr pf pl cur s = Some r"
  shows "r = (dev, s) \<or>
         (\<exists>c. rnotify_match dev (mem s c) \<and>
              r = (icmpv6_setaddresses P dev dr pf pl,
                   s\<lparr>mem := (mem s)(c := rnotify_wake (mem s c))\<rparr>))"
proof (rule rnotify_loop.raw_induct
    [where P = "\<lambda>P dev dr pf pl cur s r. r = (dev, s) \<or>
         (\<exists>c. rnotify_match dev (mem s c) \<and>
              r = (icmpv6_setaddresses P dev dr pf pl,
                   s\<lparr>mem := (mem s)(c := rnotify_wake (mem s c))\<rparr>))", OF _ assms], goal_cases)
  case (1 loop P dev dr pf pl cur s r)
  show ?case
  proof (cases cur)
    case None
    with 1(2) show ?thesis by simp
  next
    case (Some c)
    show ?thesis
    proof (cases "rnotify_match dev (mem s c)")
      case True
      with 1(2) Some have "r = (icmpv6_setaddresses P dev dr pf pl,
                   s\<lparr>mem := (mem s)(c := rnotify_wake (mem s c))\<rparr>)"
        by (simp add: rnotify_match_def rnotify_wake_def Let_def)
      with True show ?thesis by blast
    next
      case False
      with 1(2) Some have "loop P dev dr pf pl (rn_flink (mem s c)) s = Some r"
        by (auto simp: rnotify_match_def split: if_splits)
      then show ?thesis by (rule 1(1))
    qed
  qed
qed

lemma setaddresses_clamp:
  "icmpv6_setaddresses P dev dr pf pl = icmpv6_setaddresses P dev dr pf (min pl 128)"
  by (simp add: icmpv6_setaddresses_def Let_def min_def)

lemma rnotify_loop_clamp1:
  assumes "rnotify_loop P dev dr pf pl cur s = Some r"
  shows "rnotify_loop P dev dr pf (min pl 128) cur s = Some r"
proof (rule rnotify_loop.raw_induct
    [where P = "\<lambda>P dev dr pf pl cur s r.
                  rnotify_loop P dev dr pf (min pl 128) cur s = Some r", OF _ assms], goal_cases)
  case (1 loop P dev dr pf pl cur s r)
  show ?case
  proof (cases cur)
    case None
    with 1(2) show ?thesis by (subst rnotify_loop.simps) simp
  next
    case (Some c)
    show ?thesis
    proof (cases "rnotify_match dev (mem s c)")
      case True
      with 1(2) Some show ?thesis
        by (subst rnotify_loop.simps)
           (simp add: rnotify_match_def Let_def setaddresses_clamp [symmetric])
    next
      case False
      with 1(2) Some have "loop P dev dr pf pl (rn_flink (mem s c)) s = Some r"
        by (auto simp: rnotify_match_def split: if_splits)
      then have "rnotify_loop P dev dr pf (min pl 128) (rn_flink (mem s c)) s = Some r"
        by (rule 1(1))
      with False Some show ?thesis
        by (subst rnotify_loop.simps) (auto simp: rnotify_match_def)
    qed
  qed
qed

lemma rnotify_loop_clamp2:
  assumes "rnotify_loop P dev dr pf pl' cur s = Some r" and "pl' = min pl 128"
  shows "rnotify_loop P dev dr pf pl cur s = Some r"
proof -
  have "pl' = min pl 128 \<longrightarrow> rnotify_loop P dev dr pf pl cur s = Some r"
  proof (rule rnotify_loop.raw_induct
    [where P = "\<lambda>P dev dr pf pl' cur s r.
                  pl' = min pl 128 \<longrightarrow> rnotify_loop P dev dr pf pl cur s = Some r",
     OF _ assms(1)], goal_cases)
    case (1 loop P dev dr pf pl' cur s r)
    show ?case
    proof
      assume eq: "pl' = min pl 128"
      show "rnotify_loop P dev dr pf pl cur s = Some r"
      proof (cases cur)
        case None
        with 1(2) show ?thesis by (subst rnotify_loop.simps) simp
      next
        case (Some c)
        show ?thesis
        proof (cases "rnotify_match dev (mem s c)")
          case True
          with 1(2) eq Some show ?thesis
            by (subst rnotify_loop.simps)
               (simp add: rnotify_match_def Let_def setaddresses_clamp [symmetric])
        next
          case False
          with 1(2) Some have "loop P dev dr pf pl' (rn_flink (mem s c)) s = Some r"
            by (auto simp: rnotify_match_def split: if_splits)
          then have "rnotify_loop P dev dr pf pl (rn_flink (mem s c)) s = Some r"
            using 1(1) eq by blast
          with False Some show ?thesis
            by (subst rnotify_loop.simps) (auto simp: rnotify_match_def)
        qed
      qed
    qed
  qed
  with assms(2) show ?thesis by simp
qed

lemma rnotify_loop_clamp:
  "rnotify_loop P dev dr pf pl cur s = rnotify_loop P dev dr pf (min pl 128) cur s"
proof (cases "rnotify_loop P dev dr pf pl cur s")
  case None
  show ?thesis
  proof (cases "rnotify_loop P dev dr pf (min pl 128) cur s")
    case None
    with \<open>rnotify_loop P dev dr pf pl cur s = None\<close> show ?thesis by simp
  next
    case (Some r)
    then have "rnotify_loop P dev dr pf pl cur s = Some r"
      by (rule rnotify_loop_clamp2) simp
    with None show ?thesis by simp
  qed
next
  case (Some r)
  then show ?thesis by (simp add: rnotify_loop_clamp1)
qed

subsection \<open>Registration and delivery on a well-formed list\<close>

lemmas example_defs = no_waiters_def blank_notify_def eth0_def eth1_def two_waiters_def
  three_waiters_def wait_signalled_def wait_expired_def

lemmas eval_defs =
  icmpv6_rnotify_def rnotify_loop.simps icmpv6_rwait_setup_def memcpy_def IFNAMSIZ_def
  OK_def ETIMEDOUT_def ENOENT_def nxsem_init_def nxsem_setprotocol_def nxsem_post_def
  nxsem_destroy_def Let_def

lemma strncmp_memcpy:
  "n \<le> length src \<Longrightarrow> strncmp (memcpy dest src n) src n = 0"
proof (induction n arbitrary: src dest)
  case 0
  then show ?case by simp
next
  case (Suc n)
  then obtain c src' where src: "src = c # src'" and len: "n \<le> length src'"
    by (cases src) auto
  have "memcpy dest (c # src') (Suc n) = c # memcpy (tl dest) src' n"
    by (simp add: memcpy_def drop_Suc)
  with Suc.IH [OF len] src show ?case
    by (simp add: Let_def)
qed

lemma registry_setup:
  assumes "registry s as" and "notify \<notin> set as"
  shows "registry (icmpv6_rwait_setup dev notify s) (notify # as)"
  using assms
  by (simp add: registry_def icmpv6_rwait_setup_def Let_def waiters_upd_notin)

lemma rnotify_registry:
  assumes "registry s as"
  shows "icmpv6_rnotify P dev dr pf pl s =
     Some (case find (\<lambda>a. rnotify_match dev (mem s a)) as of
             None \<Rightarrow> (dev, s)
           | Some c \<Rightarrow> (icmpv6_setaddresses P dev dr pf pl,
                        s\<lparr>mem := (mem s)(c := rnotify_wake (mem s c))\<rparr>))"
  using assms unfolding registry_def icmpv6_rnotify_def
  by (rule rnotify_loop_waiters)

lemma setup_match:
  assumes "IFNAMSIZ \<le> length (d_ifname dev)"
  shows "rnotify_match dev (mem (icmpv6_rwait_setup dev notify s) notify)"
  using assms
  by (simp add: rnotify_match_def icmpv6_rwait_setup_def Let_def strncmp_memcpy
      nxsem_init_def nxsem_setprotocol_def OK_def ETIMEDOUT_def)

lemma rnotify_changed_entry:
  assumes "icmpv6_rnotify P dev dr pf pl s = Some (dev', s')"
      and "mem s' a \<noteq> mem s a"
  shows "rnotify_match dev (mem s a) \<and> mem s' a = rnotify_wake (mem s a)"
proof -
  from assms(1) have "rnotify_loop P dev dr pf pl (g_icmpv6_rwaiters s) s = Some (dev', s')"
    by (simp add: icmpv6_rnotify_def)
  from rnotify_loop_cases [OF this] assms(2) show ?thesis
    by (auto split: if_splits)
qed

lemma rnotify_untouched:
  assumes "registry s as" and "a \<notin> set as"
  shows "\<exists>dev' s'. icmpv6_rnotify P dev dr pf pl s = Some (dev', s') \<and> mem s' a = mem s a"
proof (cases "find (\<lambda>a. rnotify_match dev (mem s a)) as")
  case None
  with rnotify_registry [OF assms(1)] show ?thesis by simp
next
  case (Some c)
  then have "c \<in> set as" by (auto simp: find_Some_iff)
  with assms(2) have "c \<noteq> a" by auto
  with Some rnotify_registry [OF assms(1), of P dev dr pf pl] show ?thesis by simp
qed

lemma registry_sem_update:
  "registry (s\<lparr>mem := (mem s)(a := (mem s a)\<lparr>rn_sem := x\<rparr>)\<rparr>) as = registry s as"
  unfolding registry_def by (simp add: waiters_upd_same_flink)

lemma cancel_registry:
  assumes "registry s as"
  shows "\<exists>s'. icmpv6_rwait_cancel notify s =
            Some (if notify \<in> set as then OK else - ENOENT, s') \<and>
          registry s' (remove1 notify as) \<and>
          g_icmpv6_rwaiters s' =
            (if g_icmpv6_rwaiters s = Some notify then rn_flink (mem s notify)
             else g_icmpv6_rwaiters s) \<and>
          sem_destroyed (rn_sem (mem s' notify))"
proof (cases "notify \<in> set as")
  case True
  then obtain xs ys where as: "as = xs @ notify # ys" and nx: "notify \<notin> set xs"
    by (auto dest: split_list_first)
  from assms as have r: "registry s (xs @ notify # ys)" by simp
  from cancel_present [OF r] obtain s' where
    c: "icmpv6_rwait_cancel notify s = Some (OK, s')" and
    s': "s' = (if xs = []
       then s\<lparr>g_icmpv6_rwaiters := rn_flink (mem s notify),
              mem := (mem s)(notify := (mem s notify)\<lparr>rn_sem := nxsem_destroy (rn_sem (mem s notify))\<rparr>)\<rparr>
       else s\<lparr>mem := (mem s)
                (last xs := (mem s (last xs))\<lparr>rn_flink := rn_flink (mem s notify)\<rparr>,
                 notify := (mem s notify)\<lparr>rn_sem := nxsem_destroy (rn_sem (mem s notify))\<rparr>)\<rparr>)"
    by simp
  have reg: "registry s' (remove1 notify as)"
    using registry_after_cancel [OF r c] as nx by (simp add: remove1_append)
  have hd: "g_icmpv6_rwaiters s = Some notify \<longleftrightarrow> xs = []"
    using r nx unfolding registry_def by (cases xs) auto
  have "g_icmpv6_rwaiters s' =
            (if g_icmpv6_rwaiters s = Some notify then rn_flink (mem s notify)
             else g_icmpv6_rwaiters s)"
    using s' hd by simp
  moreover have "sem_destroyed (rn_sem (mem s' notify))"
    using s' by (simp add: nxsem_destroy_def)
  ultimately show ?thesis using True c reg by simp
next
  case False
  have "g_icmpv6_rwaiters s \<noteq> Some notify"
    using assms False unfolding registry_def by (cases as) auto
  with False assms show ?thesis
    by (simp add: cancel_absent [OF assms False] registry_sem_update nxsem_destroy_def
        remove1_idem)
qed

lemma registry_wake:
  "registry (s\<lparr>mem := (mem s)(a := rnotify_wake (mem s a))\<rparr>) as = registry s as"
  unfolding registry_def by (simp add: waiters_upd_same_flink rnotify_wake_def)

text \<open>
  The hypothesis \<open>registry s as\<close> of the theorems below holds of every state that the
  entry points build from the empty list, as long as no entry is registered while it is
  still in the list: registration, cancellation and delivery keep the list well formed
  (\<open>registry_setup\<close>, \<open>cancel_registry\<close>, \<open>rnotify_keeps_registry\<close>).
\<close>

lemma rnotify_keeps_registry:
  assumes "registry s as" and "icmpv6_rnotify P dev dr pf pl s = Some (dev', s')"
  shows "registry s' as"
  using assms rnotify_registry [OF assms(1), of P dev dr pf pl]
  by (auto simp: registry_wake split: option.splits)

subsection \<open>The result field along a run\<close>

lemma setup_result:
  "rn_result (mem (icmpv6_rwait_setup dev notify s) a) =
     (if a = notify then - ETIMEDOUT else rn_result (mem s a))"
  by (simp add: icmpv6_rwait_setup_def Let_def nxsem_init_def nxsem_setprotocol_def)

lemma cancel_result:
  "icmpv6_rwait_cancel notify s = Some (r, s') \<Longrightarrow> rn_result (mem s' a) = rn_result (mem s a)"
  by (auto simp: icmpv6_rwait_cancel_def Let_def split: option.splits prod.splits if_splits)

lemma rwait_result:
  "icmpv6_rwait timedwait notify timeout s = Some (r, s') \<Longrightarrow>
   rn_result (mem s' a) = rn_result (mem s a)"
  by (auto simp: icmpv6_rwait_def Let_def dest!: cancel_result [where a = a]
      split: option.splits prod.splits if_splits)

lemma rnotify_result:
  assumes "icmpv6_rnotify P dev dr pf pl s = Some (dev', s')"
  shows "rn_result (mem s' a) = rn_result (mem s a) \<or>
         (rn_result (mem s a) \<noteq> OK \<and> rn_result (mem s' a) = OK)"
proof (cases "mem s' a = mem s a")
  case True
  then show ?thesis by simp
next
  case False
  from rnotify_changed_entry [OF assms False] show ?thesis
    by (simp add: rnotify_match_def rnotify_wake_def)
qed

lemma call_step_result:
  assumes "call_step P c s = Some s1" and "\<forall>d. c \<noteq> Setup d a"
  shows "rn_result (mem s1 a) = rn_result (mem s a) \<or>
         (rn_result (mem s a) \<noteq> OK \<and> rn_result (mem s1 a) = OK)"
proof (cases c)
  case (Setup d n)
  with assms show ?thesis by (auto simp: setup_result)
next
  case (Cancel n)
  with assms show ?thesis by (auto dest: cancel_result)
next
  case (Wait tw n t)
  with assms show ?thesis by (auto dest: rwait_result)
next
  case (Notify d dr pf pl)
  with assms obtain dev' where "icmpv6_rnotify P d dr pf pl s = Some (dev', s1)"
    by auto
  then show ?thesis by (rule rnotify_result)
qed

lemma call_step_sentinel:
  assumes "call_step P c s = Some s1"
      and "rn_result (mem s a) = OK \<or> rn_result (mem s a) = - ETIMEDOUT"
  shows "rn_result (mem s1 a) = OK \<or> rn_result (mem s1 a) = - ETIMEDOUT"
proof (cases "\<exists>d. c = Setup d a")
  case True
  with assms(1) show ?thesis by (auto simp: setup_result)
next
  case False
  with call_step_result [OF assms(1), of a] assms(2) show ?thesis by auto
qed

lemma result_writes_sentinel:
  "result_writes P a cs s = Some (n, s') \<Longrightarrow>
   rn_result (mem s a) = OK \<or> rn_result (mem s a) = - ETIMEDOUT \<Longrightarrow>
   rn_result (mem s' a) = OK \<or> rn_result (mem s' a) = - ETIMEDOUT"
proof (induction cs arbitrary: s n)
  case Nil
  then show ?case by simp
next
  case (Cons c cs)
  from Cons.prems(1) obtain s1 n1 where
    st: "call_step P c s = Some s1" and rw: "result_writes P a cs s1 = Some (n1, s')"
    by (auto split: option.splits)
  from call_step_sentinel [OF st Cons.prems(2)] Cons.IH [OF rw] show ?case by blast
qed

lemma result_writes_once:
  "result_writes P a cs s = Some (n, s') \<Longrightarrow> \<forall>c\<in>set cs. \<forall>d. c \<noteq> Setup d a \<Longrightarrow>
   n \<le> 1 \<and> (rn_result (mem s a) = OK \<longrightarrow> n = 0)"
proof (induction cs arbitrary: s n)
  case Nil
  then show ?case by simp
next
  case (Cons c cs)
  from Cons.prems(1) obtain s1 n1 where
    st: "call_step P c s = Some s1" and rw: "result_writes P a cs s1 = Some (n1, s')" and
    n: "n = (if rn_result (mem s1 a) \<noteq> rn_result (mem s a) then n1 + 1 else n1)"
    by (auto split: option.splits)
  from Cons.prems(2) have c: "\<forall>d. c \<noteq> Setup d a" and cs: "\<forall>c\<in>set cs. \<forall>d. c \<noteq> Setup d a"
    by auto
  from Cons.IH [OF rw cs] have ih: "n1 \<le> 1" "rn_result (mem s1 a) = OK \<longrightarrow> n1 = 0"
    by auto
  from call_step_result [OF st c] ih n show ?case by auto
qed

lemma setaddresses_words:
  "d_ipv6draddr (icmpv6_setaddresses P dev dr pf pl) = dr \<and>
   d_ipv6addr (icmpv6_setaddresses P dev dr pf pl) ! j =
     (if j < 7 \<and> j < length (d_ipv6addr dev)
      then (d_ipv6addr dev ! j AND NOT (d_ipv6netmask (icmpv6_setaddresses P dev dr pf pl) ! j)) OR
           (pf ! j AND d_ipv6netmask (icmpv6_setaddresses P dev dr pf pl) ! j)
      else d_ipv6addr dev ! j)"
  by (simp add: icmpv6_setaddresses_def Let_def nth_setaddresses_loop)

section \<open>Claims\<close>

text \<open>
  C8. Before the mask is computed the prefix length is clamped to 128: the mask written to
  the device is the one the mask utility gives for \<open>min preflen 128\<close>, and a call with a
  longer prefix length gives the same device structure, and the same delivery, as the
  call with the clamped length (so every length above 128 behaves as 128).
\<close>

theorem preflen_clamped:
  "d_ipv6netmask (icmpv6_setaddresses pref2mask dev draddr prefix preflen) =
     pref2mask (min (unat preflen) 128) (d_ipv6netmask dev) \<and>
   icmpv6_setaddresses pref2mask dev draddr prefix preflen =
     icmpv6_setaddresses pref2mask dev draddr prefix (min preflen 128) \<and>
   icmpv6_rnotify pref2mask dev draddr prefix preflen s =
     icmpv6_rnotify pref2mask dev draddr prefix (min preflen 128) s"
proof -
  have "d_ipv6netmask (icmpv6_setaddresses pref2mask dev draddr prefix preflen) =
     pref2mask (min (unat preflen) 128) (d_ipv6netmask dev)"
    by (simp add: icmpv6_setaddresses_def Let_def min_def word_less_nat_alt)
  moreover have "icmpv6_rnotify pref2mask dev draddr prefix preflen s =
     icmpv6_rnotify pref2mask dev draddr prefix (min preflen 128) s"
    unfolding icmpv6_rnotify_def by (rule rnotify_loop_clamp)
  ultimately show ?thesis
    using setaddresses_clamp by blast
qed

text \<open>
  C9. The configuration update leaves the eighth word (index 7) of the interface's IPv6
  address as it was, whatever the prefix, the prefix length and the mask are: the merge
  loop runs over the indices 0 to 6 only. The address keeps its length.
\<close>

theorem last_word_unchanged:
  "d_ipv6addr (icmpv6_setaddresses pref2mask dev draddr prefix preflen) ! 7 = d_ipv6addr dev ! 7 \<and>
   length (d_ipv6addr (icmpv6_setaddresses pref2mask dev draddr prefix preflen)) =
     length (d_ipv6addr dev)"
  by (simp add: icmpv6_setaddresses_def Let_def nth_setaddresses_loop)

text \<open>
  C6. When no entry of the list is unsatisfied and carries the name of the device, the
  delivery is a no-op that reports nothing: the call returns with the device structure
  (address, netmask, router address) and the whole state (list head, every entry's
  result, semaphore and link) exactly as they were.
\<close>

theorem rnotify_no_match_noop:
  assumes "registry s as"
      and "\<forall>a\<in>set as. \<not> rnotify_match dev (mem s a)"
  shows "icmpv6_rnotify pref2mask dev draddr prefix preflen s = Some (dev, s)"
proof -
  from assms(2) have "find (\<lambda>a. rnotify_match dev (mem s a)) as = None"
    by (simp add: find_None_iff)
  with rnotify_registry [OF assms(1)] show ?thesis by simp
qed

theorem rnotify_no_match_noop_witness:
  "registry two_waiters [2, 1] \<and>
   \<not> rnotify_match eth1 (mem two_waiters 2) \<and> \<not> rnotify_match eth1 (mem two_waiters 1) \<and>
   icmpv6_rnotify net_ipv6_pref2mask eth1 [0xfe80, 0, 0, 0, 0, 0, 0, 1]
       [0x2001, 0xdb8, 0, 0, 0, 0, 0, 0] 64 two_waiters = Some (eth1, two_waiters)"
proof -
  have r: "registry two_waiters [2, 1]"
    by code_simp
  have n2: "\<not> rnotify_match eth1 (mem two_waiters 2)"
    by code_simp
  have n1: "\<not> rnotify_match eth1 (mem two_waiters 1)"
    by code_simp
  from n2 n1 have n: "\<forall>a\<in>set [2, 1]. \<not> rnotify_match eth1 (mem two_waiters a)"
    by simp
  from rnotify_no_match_noop [OF r n] r n2 n1 show ?thesis by blast
qed

text \<open>
  C2. One delivery satisfies at most one entry. On a well-formed list the entry taken is
  the first one in scan order that matches; it gets the success result and one post of
  its semaphore, and the rest of the memory is unchanged. Registration puts the entry at
  the head, so after registering \<open>notify\<close> for the device the delivery takes \<open>notify\<close>,
  the most recently registered entry, whatever else is in the list, and leaves every other
  entry as it was.
\<close>

theorem rnotify_satisfies_first:
  assumes "registry s as"
      and "notify \<notin> set as"
      and "IFNAMSIZ \<le> length (d_ifname dev)"
  shows "(\<forall>c. find (\<lambda>a. rnotify_match dev (mem s a)) as = Some c \<longrightarrow>
            icmpv6_rnotify pref2mask dev draddr prefix preflen s =
              Some (icmpv6_setaddresses pref2mask dev draddr prefix preflen,
                    s\<lparr>mem := (mem s)(c := rnotify_wake (mem s c))\<rparr>)) \<and>
         registry (icmpv6_rwait_setup dev notify s) (notify # as) \<and>
         icmpv6_rnotify pref2mask dev draddr prefix preflen (icmpv6_rwait_setup dev notify s) =
           Some (icmpv6_setaddresses pref2mask dev draddr prefix preflen,
                 (icmpv6_rwait_setup dev notify s)
                   \<lparr>mem := (mem (icmpv6_rwait_setup dev notify s))
                      (notify := rnotify_wake (mem (icmpv6_rwait_setup dev notify s) notify))\<rparr>)"
proof -
  have a: "\<forall>c. find (\<lambda>a. rnotify_match dev (mem s a)) as = Some c \<longrightarrow>
            icmpv6_rnotify pref2mask dev draddr prefix preflen s =
              Some (icmpv6_setaddresses pref2mask dev draddr prefix preflen,
                    s\<lparr>mem := (mem s)(c := rnotify_wake (mem s c))\<rparr>)"
    by (simp add: rnotify_registry [OF assms(1)])
  have b: "registry (icmpv6_rwait_setup dev notify s) (notify # as)"
    using assms(1,2) by (rule registry_setup)
  have "find (\<lambda>a. rnotify_match dev (mem (icmpv6_rwait_setup dev notify s) a)) (notify # as) =
          Some notify"
    using setup_match [OF assms(3)] by simp
  with rnotify_registry [OF b] have c:
    "icmpv6_rnotify pref2mask dev draddr prefix preflen (icmpv6_rwait_setup dev notify s) =
           Some (icmpv6_setaddresses pref2mask dev draddr prefix preflen,
                 (icmpv6_rwait_setup dev notify s)
                   \<lparr>mem := (mem (icmpv6_rwait_setup dev notify s))
                      (notify := rnotify_wake (mem (icmpv6_rwait_setup dev notify s) notify))\<rparr>)"
    by simp
  from a b c show ?thesis by blast
qed

theorem rnotify_satisfies_first_witness:
  "registry (icmpv6_rwait_setup eth0 1 no_waiters) [1] \<and> 2 \<notin> set [1::nat] \<and>
   IFNAMSIZ \<le> length (d_ifname eth0) \<and>
   (\<exists>dev' s'.
      icmpv6_rnotify net_ipv6_pref2mask eth0 [0xfe80, 0, 0, 0, 0, 0, 0, 1]
        [0x2001, 0xdb8, 0, 0, 0, 0, 0, 0] 64
        (icmpv6_rwait_setup eth0 2 (icmpv6_rwait_setup eth0 1 no_waiters)) = Some (dev', s') \<and>
      rn_result (mem s' 2) = OK \<and> semcount (rn_sem (mem s' 2)) = 1 \<and>
      rn_result (mem s' 1) = - ETIMEDOUT \<and> semcount (rn_sem (mem s' 1)) = 0)"
proof -
  have r: "registry (icmpv6_rwait_setup eth0 1 no_waiters) [1]"
    by code_simp
  have n: "2 \<notin> set [1::nat]" by simp
  have l: "IFNAMSIZ \<le> length (d_ifname eth0)"
    by (simp add: IFNAMSIZ_def eth0_def)
  from rnotify_satisfies_first [OF r n l] have
    "icmpv6_rnotify net_ipv6_pref2mask eth0 [0xfe80, 0, 0, 0, 0, 0, 0, 1]
        [0x2001, 0xdb8, 0, 0, 0, 0, 0, 0] 64
        (icmpv6_rwait_setup eth0 2 (icmpv6_rwait_setup eth0 1 no_waiters)) =
     Some (icmpv6_setaddresses net_ipv6_pref2mask eth0 [0xfe80, 0, 0, 0, 0, 0, 0, 1]
        [0x2001, 0xdb8, 0, 0, 0, 0, 0, 0] 64,
        (icmpv6_rwait_setup eth0 2 (icmpv6_rwait_setup eth0 1 no_waiters))
           \<lparr>mem := (mem (icmpv6_rwait_setup eth0 2 (icmpv6_rwait_setup eth0 1 no_waiters)))
              (2 := rnotify_wake
                 (mem (icmpv6_rwait_setup eth0 2 (icmpv6_rwait_setup eth0 1 no_waiters)) 2))\<rparr>)"
    by blast
  moreover have
    "rn_result (rnotify_wake
       (mem (icmpv6_rwait_setup eth0 2 (icmpv6_rwait_setup eth0 1 no_waiters)) 2)) = OK \<and>
     semcount (rn_sem (rnotify_wake
       (mem (icmpv6_rwait_setup eth0 2 (icmpv6_rwait_setup eth0 1 no_waiters)) 2))) = 1 \<and>
     rn_result (mem (icmpv6_rwait_setup eth0 2 (icmpv6_rwait_setup eth0 1 no_waiters)) 1) =
       - ETIMEDOUT \<and>
     semcount (rn_sem (mem (icmpv6_rwait_setup eth0 2 (icmpv6_rwait_setup eth0 1 no_waiters)) 1)) = 0"
    by (simp add: rnotify_wake_def eval_defs example_defs)
  ultimately show ?thesis
    using r n l by simp
qed

text \<open>
  C7. On a well-formed list \<open>icmpv6_rwait_cancel\<close> returns. It looks for the entry by its
  address: when the entry is in the list the status is \<open>OK\<close> and the entry is unlinked
  (the head is moved to the entry's successor when the entry was first, and stays
  otherwise); when it is not, the status is \<open>-ENOENT\<close>, which differs from \<open>OK\<close>, and the
  list is as before. In both cases the entry's semaphore has been destroyed.
\<close>

theorem cancel_status:
  assumes "registry s as"
  shows "\<exists>s'. icmpv6_rwait_cancel notify s =
            Some (if notify \<in> set as then OK else - ENOENT, s') \<and>
          - ENOENT \<noteq> OK \<and>
          registry s' (remove1 notify as) \<and>
          g_icmpv6_rwaiters s' =
            (if g_icmpv6_rwaiters s = Some notify then rn_flink (mem s notify)
             else g_icmpv6_rwaiters s) \<and>
          sem_destroyed (rn_sem (mem s' notify))"
  using cancel_registry [OF assms, of notify] by (simp add: ENOENT_def OK_def)

theorem cancel_status_witness:
  "registry two_waiters [2, 1] \<and>
   (\<exists>s'. icmpv6_rwait_cancel 1 two_waiters = Some (OK, s') \<and> registry s' [2] \<and>
         g_icmpv6_rwaiters s' = Some 2 \<and> sem_destroyed (rn_sem (mem s' 1))) \<and>
   (\<exists>s'. icmpv6_rwait_cancel 3 two_waiters = Some (- ENOENT, s') \<and> registry s' [2, 1] \<and>
         sem_destroyed (rn_sem (mem s' 3)))"
proof -
  have r: "registry two_waiters [2, 1]" by code_simp
  have g: "g_icmpv6_rwaiters two_waiters = Some 2"
    by (simp add: two_waiters_def icmpv6_rwait_setup_def Let_def)
  from cancel_status [OF r, of 1] cancel_status [OF r, of 3] r g show ?thesis
    by simp blast
qed

text \<open>
  C10. Cancelling an entry that is in the list unlinks exactly that entry: the others stay,
  in the same order; name, result and semaphore of every other structure are untouched;
  the only link that changes is the one of the predecessor, which now holds the
  cancelled entry's link.
\<close>

theorem cancel_frame:
  assumes "registry s (xs @ notify # ys)"
  shows "\<exists>s'. icmpv6_rwait_cancel notify s = Some (OK, s') \<and>
          registry s' (xs @ ys) \<and>
          (\<forall>b. b \<noteq> notify \<longrightarrow>
             rn_ifname (mem s' b) = rn_ifname (mem s b) \<and>
             rn_result (mem s' b) = rn_result (mem s b) \<and>
             rn_sem (mem s' b) = rn_sem (mem s b)) \<and>
          (\<forall>b. b \<noteq> notify \<longrightarrow> (xs = [] \<or> b \<noteq> last xs) \<longrightarrow> mem s' b = mem s b) \<and>
          (xs \<noteq> [] \<longrightarrow> rn_flink (mem s' (last xs)) = rn_flink (mem s notify))"
proof -
  from cancel_present [OF assms] obtain s' where
    c: "icmpv6_rwait_cancel notify s = Some (OK, s')" and
    s': "s' = (if xs = []
       then s\<lparr>g_icmpv6_rwaiters := rn_flink (mem s notify),
              mem := (mem s)(notify := (mem s notify)\<lparr>rn_sem := nxsem_destroy (rn_sem (mem s notify))\<rparr>)\<rparr>
       else s\<lparr>mem := (mem s)
                (last xs := (mem s (last xs))\<lparr>rn_flink := rn_flink (mem s notify)\<rparr>,
                 notify := (mem s notify)\<lparr>rn_sem := nxsem_destroy (rn_sem (mem s notify))\<rparr>)\<rparr>)"
    by simp
  from assms have "distinct (xs @ notify # ys)"
    unfolding registry_def by (rule waiters_distinct)
  then have ln: "xs \<noteq> [] \<Longrightarrow> last xs \<noteq> notify"
    using last_in_set by fastforce
  have reg: "registry s' (xs @ ys)"
    using assms c by (rule registry_after_cancel)
  have f1: "\<forall>b. b \<noteq> notify \<longrightarrow>
             rn_ifname (mem s' b) = rn_ifname (mem s b) \<and>
             rn_result (mem s' b) = rn_result (mem s b) \<and>
             rn_sem (mem s' b) = rn_sem (mem s b)"
    using s' by simp
  have f2: "\<forall>b. b \<noteq> notify \<longrightarrow> (xs = [] \<or> b \<noteq> last xs) \<longrightarrow> mem s' b = mem s b"
    using s' by auto
  have f3: "xs \<noteq> [] \<longrightarrow> rn_flink (mem s' (last xs)) = rn_flink (mem s notify)"
    using s' ln by simp
  from c reg f1 f2 f3 show ?thesis by blast
qed

theorem cancel_frame_witness:
  "registry three_waiters ([3] @ 2 # [1]) \<and>
   (\<exists>s'. icmpv6_rwait_cancel 2 three_waiters = Some (OK, s') \<and> registry s' [3, 1] \<and>
         mem s' 1 = mem three_waiters 1 \<and>
         rn_flink (mem s' 3) = Some 1 \<and>
         rn_ifname (mem s' 3) = rn_ifname (mem three_waiters 3) \<and>
         rn_result (mem s' 3) = - ETIMEDOUT)"
proof -
  have r: "registry three_waiters ([3] @ 2 # [1])" by code_simp
  have f: "rn_flink (mem three_waiters 2) = Some 1"
    by (simp add: three_waiters_def two_waiters_def icmpv6_rwait_setup_def Let_def)
  have e: "rn_result (mem three_waiters 3) = - ETIMEDOUT"
    by (simp add: three_waiters_def two_waiters_def icmpv6_rwait_setup_def Let_def)
  from cancel_frame [OF r] obtain s' where
    "icmpv6_rwait_cancel 2 three_waiters = Some (OK, s')" "registry s' ([3] @ [1])"
    "\<forall>b. b \<noteq> 2 \<longrightarrow>
             rn_ifname (mem s' b) = rn_ifname (mem three_waiters b) \<and>
             rn_result (mem s' b) = rn_result (mem three_waiters b) \<and>
             rn_sem (mem s' b) = rn_sem (mem three_waiters b)"
    "\<forall>b. b \<noteq> 2 \<longrightarrow> ([3::nat] = [] \<or> b \<noteq> last [3]) \<longrightarrow> mem s' b = mem three_waiters b"
    "[3::nat] \<noteq> [] \<longrightarrow> rn_flink (mem s' (last [3])) = rn_flink (mem three_waiters 2)"
    by blast
  with r f e show ?thesis by simp
qed

text \<open>
  C4. On a well-formed list \<open>icmpv6_rwait\<close> returns, whatever the timed wait reports
  (woken, timed out, failed), and the state it leaves is the one \<open>icmpv6_rwait_cancel\<close>
  leaves for this entry. Afterwards the entry is not in the list, and a delivery that
  follows, for any device, does not touch it.
\<close>

theorem rwait_removes_entry:
  assumes "registry s as"
  shows "\<exists>ret s'. icmpv6_rwait timedwait notify timeout s = Some (ret, s') \<and>
           map_option snd (icmpv6_rwait timedwait notify timeout s) =
             map_option snd (icmpv6_rwait_cancel notify
               (s\<lparr>mem := (mem s)(notify := (mem s notify)
                    \<lparr>rn_sem := snd (timedwait (rn_sem (mem s notify)) timeout)\<rparr>)\<rparr>)) \<and>
           registry s' (remove1 notify as) \<and> notify \<notin> set (remove1 notify as) \<and>
           (\<forall>pref2mask dev draddr prefix preflen. \<exists>dev' s''.
              icmpv6_rnotify pref2mask dev draddr prefix preflen s' = Some (dev', s'') \<and>
              mem s'' notify = mem s' notify)"
proof -
  let ?s1 = "s\<lparr>mem := (mem s)(notify := (mem s notify)
                    \<lparr>rn_sem := snd (timedwait (rn_sem (mem s notify)) timeout)\<rparr>)\<rparr>"
  from assms have r1: "registry ?s1 as" by (simp add: registry_sem_update)
  from cancel_registry [OF r1, of notify] obtain s' where
    c: "icmpv6_rwait_cancel notify ?s1 = Some (if notify \<in> set as then OK else - ENOENT, s')"
    and reg: "registry s' (remove1 notify as)" by blast
  from assms have "distinct as" unfolding registry_def by (rule waiters_distinct)
  then have nin: "notify \<notin> set (remove1 notify as)" by simp
  have w: "icmpv6_rwait timedwait notify timeout s =
       Some (if 0 \<le> fst (timedwait (rn_sem (mem s notify)) timeout)
             then rn_result (mem s notify)
             else fst (timedwait (rn_sem (mem s notify)) timeout), s')"
    using c by (simp add: icmpv6_rwait_def Let_def split_beta)
  have m: "map_option snd (icmpv6_rwait timedwait notify timeout s) =
             map_option snd (icmpv6_rwait_cancel notify ?s1)"
    using c w by simp
  have "\<forall>pref2mask dev draddr prefix preflen. \<exists>dev' s''.
              icmpv6_rnotify pref2mask dev draddr prefix preflen s' = Some (dev', s'') \<and>
              mem s'' notify = mem s' notify"
    using rnotify_untouched [OF reg nin] by blast
  with w m reg nin show ?thesis by blast
qed

theorem rwait_removes_entry_witness:
  "registry two_waiters [2, 1] \<and>
   (\<exists>ret s'. icmpv6_rwait wait_expired 2 3000 two_waiters = Some (ret, s') \<and>
      registry s' [1] \<and>
      (\<exists>dev' s''. icmpv6_rnotify net_ipv6_pref2mask eth0 [0xfe80, 0, 0, 0, 0, 0, 0, 1]
                     [0x2001, 0xdb8, 0, 0, 0, 0, 0, 0] 64 s' = Some (dev', s'') \<and>
                   mem s'' 2 = mem s' 2))"
proof -
  have r: "registry two_waiters [2, 1]" by code_simp
  from rwait_removes_entry [OF r, of wait_expired 2 3000] r show ?thesis
    by simp blast
qed

text \<open>
  C5. The value \<open>icmpv6_rwait\<close> returns: when the timed wait succeeds (status at least 0)
  it is the entry's result field, and that is \<open>OK\<close> when a delivery had taken the entry;
  when the timed wait reports the timeout it is \<open>-ETIMEDOUT\<close>, the sentinel; every
  negative status of the timed wait is returned as it is, without looking at the result
  field.
\<close>

theorem rwait_return_value:
  assumes "registry s as"
  shows "\<exists>ret s'. icmpv6_rwait timedwait notify timeout s = Some (ret, s') \<and>
           (0 \<le> fst (timedwait (rn_sem (mem s notify)) timeout) \<longrightarrow>
              ret = rn_result (mem s notify)) \<and>
           (\<forall>pref2mask dev draddr prefix preflen s0 dev'.
              icmpv6_rnotify pref2mask dev draddr prefix preflen s0 = Some (dev', s) \<and>
              mem s notify \<noteq> mem s0 notify \<and>
              0 \<le> fst (timedwait (rn_sem (mem s notify)) timeout) \<longrightarrow> ret = OK) \<and>
           (fst (timedwait (rn_sem (mem s notify)) timeout) = - ETIMEDOUT \<longrightarrow>
              ret = - ETIMEDOUT) \<and>
           (fst (timedwait (rn_sem (mem s notify)) timeout) < 0 \<longrightarrow>
              ret = fst (timedwait (rn_sem (mem s notify)) timeout))"
proof -
  let ?s1 = "s\<lparr>mem := (mem s)(notify := (mem s notify)
                    \<lparr>rn_sem := snd (timedwait (rn_sem (mem s notify)) timeout)\<rparr>)\<rparr>"
  let ?w = "fst (timedwait (rn_sem (mem s notify)) timeout)"
  from assms have r1: "registry ?s1 as" by (simp add: registry_sem_update)
  from cancel_registry [OF r1, of notify] obtain s' where
    c: "icmpv6_rwait_cancel notify ?s1 = Some (if notify \<in> set as then OK else - ENOENT, s')"
    by blast
  have w: "icmpv6_rwait timedwait notify timeout s =
       Some (if 0 \<le> ?w then rn_result (mem s notify) else ?w, s')"
    using c by (simp add: icmpv6_rwait_def Let_def split_beta)
  have d: "\<forall>pref2mask dev draddr prefix preflen s0 dev'.
              icmpv6_rnotify pref2mask dev draddr prefix preflen s0 = Some (dev', s) \<and>
              mem s notify \<noteq> mem s0 notify \<and> 0 \<le> ?w \<longrightarrow>
              (if 0 \<le> ?w then rn_result (mem s notify) else ?w) = OK"
    by (auto dest!: rnotify_changed_entry simp: rnotify_wake_def)
  show ?thesis
    unfolding w using d by (auto simp: ETIMEDOUT_def)
qed

theorem rwait_return_value_witness:
  "registry two_waiters [2, 1] \<and>
   (\<exists>s'. icmpv6_rwait wait_expired 2 3000 two_waiters = Some (- ETIMEDOUT, s')) \<and>
   (\<exists>dev' s. icmpv6_rnotify net_ipv6_pref2mask eth0 [0xfe80, 0, 0, 0, 0, 0, 0, 1]
                     [0x2001, 0xdb8, 0, 0, 0, 0, 0, 0] 64 two_waiters = Some (dev', s) \<and>
      registry s [2, 1] \<and> mem s 2 \<noteq> mem two_waiters 2 \<and>
      (\<exists>s'. icmpv6_rwait wait_signalled 2 3000 s = Some (OK, s')))"
proof -
  have r: "registry two_waiters [2, 1]" by code_simp
  have t: "\<exists>s'. icmpv6_rwait wait_expired 2 3000 two_waiters = Some (- ETIMEDOUT, s')"
    using rwait_return_value [OF r, of wait_expired 2 3000]
    by (auto simp: wait_expired_def)
  have m: "rnotify_match eth0 (mem two_waiters 2)"
    unfolding two_waiters_def by (rule setup_match) (simp add: IFNAMSIZ_def eth0_def)
  let ?s = "two_waiters\<lparr>mem := (mem two_waiters)(2 := rnotify_wake (mem two_waiters 2))\<rparr>"
  let ?dev = "icmpv6_setaddresses net_ipv6_pref2mask eth0 [0xfe80, 0, 0, 0, 0, 0, 0, 1]
                     [0x2001, 0xdb8, 0, 0, 0, 0, 0, 0] 64"
  have d: "icmpv6_rnotify net_ipv6_pref2mask eth0 [0xfe80, 0, 0, 0, 0, 0, 0, 1]
                     [0x2001, 0xdb8, 0, 0, 0, 0, 0, 0] 64 two_waiters = Some (?dev, ?s)"
    using m by (simp add: rnotify_registry [OF r])
  have r2: "registry ?s [2, 1]"
    using r by (simp add: registry_wake)
  have ne: "mem ?s 2 \<noteq> mem two_waiters 2"
  proof
    assume "mem ?s 2 = mem two_waiters 2"
    then have "rn_result (mem ?s 2) = rn_result (mem two_waiters 2)" by simp
    then show False
      by (simp add: rnotify_wake_def two_waiters_def icmpv6_rwait_setup_def Let_def
          OK_def ETIMEDOUT_def)
  qed
  have "\<exists>s'. icmpv6_rwait wait_signalled 2 3000 ?s = Some (OK, s')"
    using rwait_return_value [OF r2, of wait_signalled 2 3000] d ne
    by (auto simp: wait_signalled_def OK_def rnotify_wake_def)
  with r t d r2 ne show ?thesis by blast
qed

text \<open>
  C3. Let the entry at \<open>a\<close> be registered and any calls follow. A delivery that then takes
  the entry (changes its structure) found the name of the device in it and found its
  result still at the sentinel \<open>-ETIMEDOUT\<close>; an entry whose result is \<open>OK\<close> is left as it
  is, although it is still in the list. Along calls that do not register the entry again,
  its result field changes at most once. (The only write to the field outside
  registration stores \<open>OK\<close> over a value that is not \<open>OK\<close>, so every write is a change.)
\<close>

theorem result_written_once:
  assumes "result_writes pref2mask a cs (icmpv6_rwait_setup dev0 a s0) = Some (n, s)"
      and "icmpv6_rnotify pref2mask dev draddr prefix preflen s = Some (dev', s')"
  shows "(mem s' a \<noteq> mem s a \<longrightarrow>
            strncmp (rn_ifname (mem s a)) (d_ifname dev) IFNAMSIZ = 0 \<and>
            rn_result (mem s a) = - ETIMEDOUT) \<and>
         (rn_result (mem s a) = OK \<longrightarrow> mem s' a = mem s a) \<and>
         ((\<forall>c\<in>set cs. \<forall>d. c \<noteq> Setup d a) \<longrightarrow> n \<le> 1)"
proof -
  have "rn_result (mem (icmpv6_rwait_setup dev0 a s0) a) = - ETIMEDOUT"
    by (simp add: setup_result)
  with result_writes_sentinel [OF assms(1)]
  have inv: "rn_result (mem s a) = OK \<or> rn_result (mem s a) = - ETIMEDOUT"
    by simp
  have m: "mem s' a \<noteq> mem s a \<longrightarrow>
            strncmp (rn_ifname (mem s a)) (d_ifname dev) IFNAMSIZ = 0 \<and>
            rn_result (mem s a) = - ETIMEDOUT"
    using rnotify_changed_entry [OF assms(2), of a] inv
    by (auto simp: rnotify_match_def)
  have k: "rn_result (mem s a) = OK \<longrightarrow> mem s' a = mem s a"
    using rnotify_changed_entry [OF assms(2), of a]
    by (auto simp: rnotify_match_def)
  have w: "(\<forall>c\<in>set cs. \<forall>d. c \<noteq> Setup d a) \<longrightarrow> n \<le> 1"
    using result_writes_once [OF assms(1)] by blast
  from m k w show ?thesis by blast
qed

theorem result_written_once_witness:
  "\<exists>n s dev' s'.
     result_writes net_ipv6_pref2mask 1
       [Notify eth0 [0xfe80, 0, 0, 0, 0, 0, 0, 1] [0x2001, 0xdb8, 0, 0, 0, 0, 0, 0] 64,
        Notify eth0 [0xfe80, 0, 0, 0, 0, 0, 0, 1] [0x2001, 0xdb8, 0, 0, 0, 0, 0, 0] 64]
       (icmpv6_rwait_setup eth0 1 no_waiters) = Some (n, s) \<and>
     icmpv6_rnotify net_ipv6_pref2mask eth0 [0xfe80, 0, 0, 0, 0, 0, 0, 1]
       [0x2001, 0xdb8, 0, 0, 0, 0, 0, 0] 64 s = Some (dev', s') \<and>
     rn_result (mem s 1) = OK \<and> mem s' 1 = mem s 1 \<and> n = 1"
proof -
  let ?cs = "[Notify eth0 [0xfe80, 0, 0, 0, 0, 0, 0, 1] [0x2001, 0xdb8, 0, 0, 0, 0, 0, 0] 64,
        Notify eth0 [0xfe80, 0, 0, 0, 0, 0, 0, 1] [0x2001, 0xdb8, 0, 0, 0, 0, 0, 0] 64]"
  have "case result_writes net_ipv6_pref2mask 1 ?cs (icmpv6_rwait_setup eth0 1 no_waiters) of
          None \<Rightarrow> False
        | Some (n, s) \<Rightarrow> n = 1 \<and> rn_result (mem s 1) = OK \<and>
            (case icmpv6_rnotify net_ipv6_pref2mask eth0 [0xfe80, 0, 0, 0, 0, 0, 0, 1]
                    [0x2001, 0xdb8, 0, 0, 0, 0, 0, 0] 64 s of
               None \<Rightarrow> False | Some _ \<Rightarrow> True)"
    by (simp add: eval_defs example_defs eval_nat_numeral)
  then obtain s dev' s' where
    h1: "result_writes net_ipv6_pref2mask 1 ?cs (icmpv6_rwait_setup eth0 1 no_waiters) =
           Some (1, s)" and
    h2: "icmpv6_rnotify net_ipv6_pref2mask eth0 [0xfe80, 0, 0, 0, 0, 0, 0, 1]
           [0x2001, 0xdb8, 0, 0, 0, 0, 0, 0] 64 s = Some (dev', s')" and
    h3: "rn_result (mem s 1) = OK"
    by (auto split: option.splits)
  from result_written_once [OF h1 h2] h3 have "mem s' 1 = mem s 1" by blast
  with h1 h2 h3 show ?thesis by blast
qed

text \<open>
  C1. The delivery merges the prefix into the address under the mask for the words 0 to 6
  and copies the router's address (lemma \<open>setaddresses_words\<close>), but not for the eighth
  word: with a prefix length of 128 the mask selects all of word 7, and the address keeps
  its old word 7 instead of taking the prefix's. The statement evaluates the delivery at
  that input, for an entry registered for \<open>eth0\<close>.
\<close>

theorem prefix_merge_skips_last_word:
  "\<exists>dev' s'.
     icmpv6_rnotify net_ipv6_pref2mask eth0 [0xfe80, 0, 0, 0, 0, 0, 0, 1]
       [0x2001, 0xdb8, 0, 0, 0, 0, 0, 1] 128 (icmpv6_rwait_setup eth0 1 no_waiters) =
       Some (dev', s') \<and>
     d_ipv6netmask dev' = [0xffff, 0xffff, 0xffff, 0xffff, 0xffff, 0xffff, 0xffff, 0xffff] \<and>
     d_ipv6addr eth0 = [0xfe80, 0, 0, 0, 0x0211, 0x22ff, 0xfe33, 0x4455] \<and>
     d_ipv6addr dev' = [0x2001, 0xdb8, 0, 0, 0, 0, 0, 0x4455] \<and>
     d_ipv6addr dev' ! 7 \<noteq>
       (d_ipv6addr eth0 ! 7 AND NOT (d_ipv6netmask dev' ! 7)) OR
       ([0x2001, 0xdb8, 0, 0, 0, 0, 0, 1] ! 7 AND d_ipv6netmask dev' ! 7)"
proof -
  let ?dev = "icmpv6_setaddresses net_ipv6_pref2mask eth0 [0xfe80, 0, 0, 0, 0, 0, 0, 1]
       [0x2001, 0xdb8, 0, 0, 0, 0, 0, 1] 128"
  have r: "registry no_waiters []"
    by (simp add: registry_def no_waiters_def)
  have l: "IFNAMSIZ \<le> length (d_ifname eth0)"
    by (simp add: IFNAMSIZ_def eth0_def)
  have m: "rnotify_match eth0 (mem (icmpv6_rwait_setup eth0 1 no_waiters) 1)"
    using l by (rule setup_match)
  have "registry (icmpv6_rwait_setup eth0 1 no_waiters) [1]"
    using r by (rule registry_setup) simp
  from rnotify_registry [OF this] m have d:
    "\<exists>s'. icmpv6_rnotify net_ipv6_pref2mask eth0 [0xfe80, 0, 0, 0, 0, 0, 0, 1]
       [0x2001, 0xdb8, 0, 0, 0, 0, 0, 1] 128 (icmpv6_rwait_setup eth0 1 no_waiters) =
       Some (?dev, s')"
    by simp
  have k: "d_ipv6netmask ?dev = [0xffff, 0xffff, 0xffff, 0xffff, 0xffff, 0xffff, 0xffff, 0xffff]"
    by code_simp
  have a0: "d_ipv6addr eth0 = [0xfe80, 0, 0, 0, 0x0211, 0x22ff, 0xfe33, 0x4455]"
    by (simp add: eth0_def)
  have a: "d_ipv6addr ?dev = [0x2001, 0xdb8, 0, 0, 0, 0, 0, 0x4455]"
    by code_simp
  have n: "d_ipv6addr ?dev ! 7 \<noteq>
       (d_ipv6addr eth0 ! 7 AND NOT (d_ipv6netmask ?dev ! 7)) OR
       ([0x2001, 0xdb8, 0, 0, 0, 0, 0, 1] ! 7 AND d_ipv6netmask ?dev ! 7)"
    unfolding k a a0 by simp
  from d k a0 a n show ?thesis by blast
qed

end
